theory Spec2Isabelle
  imports Main "HOL-Library.Word"
begin

section \<open>The allocation registry of the memory profiler\<close>

text \<open>
  A shallow embedding of \<^verbatim>\<open>src/hash_table.c\<close> (the registry of live allocations and the
  leak report) and of the output routines of \<^verbatim>\<open>src/profiler.c\<close>. Every C function
  becomes a function from the profiler's state to its new state; what the C code reads
  from its environment (the real allocator, the clock, the dynamic linker) is a field of
  that state. The calls are taken one at a time: the mutex that the C code holds around
  every access to the table while the program runs is what makes each of them a single
  step, and it is not part of the state.
\<close>

subsection \<open>Data\<close>

text \<open>
  Pointers, \<^verbatim>\<open>size_t\<close> and \<^verbatim>\<open>unsigned long\<close> are 64-bit words, as on 64-bit Linux
  (LP64), the platform of \<^verbatim>\<open>dladdr\<close> and \<^verbatim>\<open>execinfo.h\<close> that the code uses; the
  null pointer is the word 0. Arithmetic on \<^verbatim>\<open>size_t\<close> wraps around, as C's
  unsigned arithmetic does. C's \<^verbatim>\<open>int\<close> is modelled by \<open>int\<close>: the two leak counters,
  the only \<^verbatim>\<open>int\<close>s that grow, are incremented once per registered record, and C
  leaves their overflow (more than \<open>2^31 - 1\<close> live records) undefined.
\<close>

type_synonym addr = "64 word"
type_synonym size_t = "64 word"

text \<open>
  Modelled from the spec: \<^verbatim>\<open>include/profiler_internal.h\<close>, which declares
  \<^verbatim>\<open>allocation_info_t\<close>, is not among the sources. The fields are the ones
  \<^verbatim>\<open>hash_table.c\<close> reads and writes, and the ones of the spec's AllocationRecord
  (address, size, timestamp, stackTrace, suspicious). The field \<^verbatim>\<open>size\<close> is
  \<open>size_bytes\<close> here. \<^verbatim>\<open>stack_trace\<close> is a pointer to an array that the record
  owns: \<open>None\<close> is the null pointer, \<open>Some fr\<close> the array with the entries \<open>fr\<close>.
\<close>

record allocation_info_t =
  ptr :: addr
  size_bytes :: size_t
  timestamp :: int
  stack_trace :: "addr list option"
  stack_depth :: int
  is_suspicious :: int

text \<open>
  A block of tracking metadata that the registry hands to \<^verbatim>\<open>real_free_ptr\<close>: the array of
  a stack trace or the record itself.
\<close>

datatype metadata_block =
  Stack_trace_block "addr list"
  | Info_block allocation_info_t

text \<open>
  The state of the profiler.
  \<^item> \<open>g_allocations\<close>: the hash table, as the list of its records in the order of their
    insertion (the order in which \<^verbatim>\<open>HASH_ITER\<close> visits them);
  \<^item> \<open>real_malloc_ptr\<close>: the pointer to the real allocator; \<open>None\<close> is the null pointer
    (not resolved yet), \<open>Some alloc\<close> a resolved allocator, where \<open>alloc k\<close> tells
    whether its call number \<open>k\<close> returns memory (\<open>True\<close>) or the null pointer;
  \<^item> \<open>malloc_calls\<close>: how many calls of the real allocator the registry has made;
  \<^item> \<open>real_free_log\<close>: the blocks passed to \<^verbatim>\<open>real_free_ptr\<close>, in order;
  \<^item> \<open>stderr_out\<close>: the bytes written to the error stream;
  \<^item> \<open>show_stack_traces\<close>: the global flag of that name;
  \<^item> \<open>clock\<close>: what \<^verbatim>\<open>time(NULL)\<close> returns;
  \<^item> \<open>dladdr\<close>: the dynamic linker's answer for an address: \<open>Some fname\<close> when
    \<^verbatim>\<open>dladdr\<close> succeeds with a file name, \<open>None\<close> otherwise.
\<close>

record profiler =
  g_allocations :: "allocation_info_t list"
  real_malloc_ptr :: "(nat \<Rightarrow> bool) option"
  malloc_calls :: nat
  real_free_log :: "metadata_block list"
  stderr_out :: string
  show_stack_traces :: int
  clock :: int
  dladdr :: "addr \<Rightarrow> string option"

subsection \<open>The hash table macros\<close>

text \<open>
  Modelled from the spec: \<^verbatim>\<open>include/uthash.h\<close> (the uthash macros) is not among the
  sources. The spec (4.1) asks for a hash map over the raw address in which insert
  "creates and stores a new record". \<^verbatim>\<open>HASH_ADD_PTR\<close> links the record it is given
  into the table, after the records already there; as in uthash, it does not look for a
  record with the same key (a caller that wants unique keys looks the key up first).
\<close>

definition HASH_ADD_PTR :: "allocation_info_t list \<Rightarrow> allocation_info_t \<Rightarrow> allocation_info_t list" where
  "HASH_ADD_PTR head info = head @ [info]"

text \<open>
  Modelled from the spec: \<^verbatim>\<open>include/uthash.h\<close> is not among the sources.
  \<^verbatim>\<open>HASH_FIND_PTR\<close> returns a record whose key is the address, or the null pointer
  (\<open>None\<close>) when the table has none. Should several records carry the key, the one
  added last is the one found.
\<close>

definition HASH_FIND_PTR :: "allocation_info_t list \<Rightarrow> addr \<Rightarrow> allocation_info_t option" where
  "HASH_FIND_PTR head key = find (\<lambda>r. ptr r = key) (rev head)"

text \<open>
  Modelled from the spec: \<^verbatim>\<open>include/uthash.h\<close> is not among the sources.
  \<^verbatim>\<open>HASH_DEL\<close> unlinks the record it is given, which \<^verbatim>\<open>HASH_FIND_PTR\<close> or
  \<^verbatim>\<open>HASH_ITER\<close> has returned, and keeps the order of the others.
\<close>

definition HASH_DEL :: "allocation_info_t list \<Rightarrow> allocation_info_t \<Rightarrow> allocation_info_t list" where
  "HASH_DEL head delptr = rev (remove1 delptr (rev head))"

text \<open>
  Modelled from the spec: \<^verbatim>\<open>include/uthash.h\<close> is not among the sources.
  \<^verbatim>\<open>HASH_ITER\<close> runs its body on every record of the table, in the order of insertion
  (the spec's forEachLive).
\<close>

definition HASH_ITER :: "allocation_info_t list \<Rightarrow> (allocation_info_t \<Rightarrow> 's \<Rightarrow> 's) \<Rightarrow> 's \<Rightarrow> 's" where
  "HASH_ITER head body s = fold body head s"

subsection \<open>Output routines (profiler.c)\<close>

text \<open>\<^verbatim>\<open>write(STDERR_FILENO, buf, n)\<close>: the bytes go to the error stream.\<close>

definition write_stderr :: "string \<Rightarrow> profiler \<Rightarrow> profiler" where
  "write_stderr bytes s = s\<lparr>stderr_out := stderr_out s @ bytes\<rparr>"

definition write_str :: "string \<Rightarrow> profiler \<Rightarrow> profiler" where
  "write_str str s = write_stderr str s"

text \<open>
  The conversion loop of \<^verbatim>\<open>write_hex\<close>: the digits go into \<open>buf\<close> lowest first, the
  index \<open>i\<close> of the C code is the length of \<open>buf\<close>.
\<close>

function hex_loop :: "64 word \<Rightarrow> string \<Rightarrow> string" where
  "hex_loop val buf =
     (if 0 < val \<and> length buf < 30
      then hex_loop (val div 16)
             (buf @ [let digit = unat (val mod 16)
                     in if digit < 10 then char_of (of_char (CHR ''0'') + digit)
                        else char_of (of_char (CHR ''a'') + digit - 10)])
      else buf)"
  by pat_completeness auto
termination
  by (relation "measure (\<lambda>(val, buf). 30 - length buf)") auto

definition write_hex :: "64 word \<Rightarrow> profiler \<Rightarrow> profiler" where
  "write_hex val s =
     (if val = 0 then write_stderr ''0x0'' s
      else write_stderr (rev (hex_loop val [])) (write_stderr ''0x'' s))"

function dec_loop :: "size_t \<Rightarrow> string \<Rightarrow> string" where
  "dec_loop val buf =
     (if 0 < val \<and> length buf < 30
      then dec_loop (val div 10) (buf @ [char_of (of_char (CHR ''0'') + unat (val mod 10))])
      else buf)"
  by pat_completeness auto
termination
  by (relation "measure (\<lambda>(val, buf). 30 - length buf)") auto

definition write_dec :: "size_t \<Rightarrow> profiler \<Rightarrow> profiler" where
  "write_dec val s =
     (if val = 0 then write_stderr ''0'' s
      else write_stderr (rev (dec_loop val [])) s)"

subsection \<open>The registry (hash\_table.c)\<close>

definition hash_table_init :: "profiler \<Rightarrow> profiler" where
  "hash_table_init s = s\<lparr>g_allocations := []\<rparr>"

text \<open>
  \<^verbatim>\<open>hash_table_add(ptr, size, trace, depth, is_suspicious)\<close>. The two calls of
  \<^verbatim>\<open>real_malloc_ptr\<close> are the calls number \<open>malloc_calls s\<close> (the record) and the next
  one (the array of the stack trace). \<^verbatim>\<open>memcpy\<close> copies the first \<open>depth\<close> entries of
  \<open>trace\<close>.
\<close>

definition hash_table_add :: "addr \<Rightarrow> size_t \<Rightarrow> addr list \<Rightarrow> int \<Rightarrow> int \<Rightarrow> profiler \<Rightarrow> profiler" where
  "hash_table_add p sz trace depth suspicious s =
     (if p = 0 then s
      else case real_malloc_ptr s of
        None \<Rightarrow> s
      | Some alloc \<Rightarrow>
          if \<not> alloc (malloc_calls s)
          then s\<lparr>malloc_calls := malloc_calls s + 1,
                 stderr_out := stderr_out s
                   @ ''[PROFILER ERROR] Failed to allocate tracking metadata'' @ [CHR 0x0A]\<rparr>
          else
            let got_trace = alloc (malloc_calls s + 1);
                info = \<lparr>ptr = p, size_bytes = sz, timestamp = clock s,
                        stack_trace = (if got_trace then Some (take (nat depth) trace) else None),
                        stack_depth = (if got_trace then depth else 0),
                        is_suspicious = suspicious\<rparr>
            in s\<lparr>malloc_calls := malloc_calls s + 2,
                  g_allocations := HASH_ADD_PTR (g_allocations s) info\<rparr>)"

text \<open>
  \<^verbatim>\<open>real_free_ptr(block)\<close>, as the registry calls it on its own metadata.
\<close>

definition real_free_ptr :: "metadata_block \<Rightarrow> profiler \<Rightarrow> profiler" where
  "real_free_ptr block s = s\<lparr>real_free_log := real_free_log s @ [block]\<rparr>"

text \<open>
  Releasing a record that has left the table: the array of the stack trace first (when
  the pointer is not null), then the record.
\<close>

definition free_info :: "allocation_info_t \<Rightarrow> profiler \<Rightarrow> profiler" where
  "free_info found s =
     real_free_ptr (Info_block found)
       (case stack_trace found of
          None \<Rightarrow> s
        | Some fr \<Rightarrow> real_free_ptr (Stack_trace_block fr) s)"

text \<open>
  \<^verbatim>\<open>void hash_table_remove(void *ptr)\<close>: the function returns nothing; a record that it
  finds is unlinked and released before it returns, and an address that it does not
  find is ignored.
\<close>

definition hash_table_remove :: "addr \<Rightarrow> profiler \<Rightarrow> profiler" where
  "hash_table_remove p s =
     (if p = 0 then s
      else case HASH_FIND_PTR (g_allocations s) p of
        None \<Rightarrow> s
      | Some found \<Rightarrow>
          free_info found (s\<lparr>g_allocations := HASH_DEL (g_allocations s) found\<rparr>))"

definition hash_table_find :: "addr \<Rightarrow> profiler \<Rightarrow> int" where
  "hash_table_find p s =
     (if p = 0 then 0
      else case HASH_FIND_PTR (g_allocations s) p of
        None \<Rightarrow> 0
      | Some found \<Rightarrow> 1)"

subsection \<open>The leak report (hash\_table.c)\<close>

text \<open>
  The name of the binary of a frame: \<^verbatim>\<open>"unknown"\<close> unless \<^verbatim>\<open>dladdr\<close> gives a file
  name, and then what follows its last \<^verbatim>\<open>'/'\<close> (\<^verbatim>\<open>strrchr\<close>), or all of it.
\<close>

definition binary_name :: "string option \<Rightarrow> string" where
  "binary_name dl =
     (case dl of
        None \<Rightarrow> ''unknown''
      | Some fname \<Rightarrow>
          if CHR ''/'' \<in> set fname
          then rev (takeWhile (\<lambda>c. c \<noteq> CHR ''/'') (rev fname))
          else fname)"

text \<open>
  The body of the loop over the frames, at index \<open>i\<close>. The loop reads
  \<^verbatim>\<open>stack_trace[i]\<close> for \<open>i\<close> below the recorded depth; a record that
  \<open>hash_table_add\<close> built from a trace of at least \<open>depth\<close> entries has that many.
\<close>

definition output_frame :: "addr list \<Rightarrow> nat \<Rightarrow> profiler \<Rightarrow> profiler" where
  "output_frame fr i s =
     (let s1 = (if 0 < i then write_str '','' s else s);
          name = binary_name (dladdr s1 (fr ! i));
          s2 = write_str ''{\"addr\":\"'' s1;
          s3 = write_hex (fr ! i) s2;
          s4 = write_str ''\",\"bin\":\"'' s3;
          s5 = write_str name s4
      in write_str ''\"}'' s5)"

definition output_leak_json :: "allocation_info_t \<Rightarrow> profiler \<Rightarrow> profiler" where
  "output_leak_json info s =
     (let s1 = write_str ''{\"type\":\"leak\",\"addr\":\"'' s;
          s2 = write_hex (ptr info) s1;
          s3 = write_str ''\",\"size\":'' s2;
          s4 = write_dec (size_bytes info) s3;
          s5 = write_str '',\"frames\":['' s4;
          s6 = (case stack_trace info of
                  None \<Rightarrow> s5
                | Some fr \<Rightarrow>
                    if show_stack_traces s5 \<noteq> 0 \<and> 0 < stack_depth info
                    then let frames_to_show = (if stack_depth info < 7 then stack_depth info else 7)
                         in fold (output_frame fr) [0 ..< nat frames_to_show] s5
                    else s5)
      in write_str ('']}'' @ [CHR 0x0A]) s6)"

text \<open>
  The first pass of \<^verbatim>\<open>hash_table_report_leaks\<close> over one record: the counters are
  \<open>(confirmed_count, suspicious_count, confirmed_bytes, suspicious_bytes)\<close>.
\<close>

definition count_leak :: "allocation_info_t \<Rightarrow> int \<times> int \<times> size_t \<times> size_t \<Rightarrow> int \<times> int \<times> size_t \<times> size_t" where
  "count_leak current acc =
     (case acc of (confirmed_count, suspicious_count, confirmed_bytes, suspicious_bytes) \<Rightarrow>
        if is_suspicious current = 0
        then (confirmed_count + 1, suspicious_count, confirmed_bytes + size_bytes current, suspicious_bytes)
        else (confirmed_count, suspicious_count + 1, confirmed_bytes, suspicious_bytes + size_bytes current))"

text \<open>The body of the second pass: a record that is not suspicious is printed.\<close>

definition output_confirmed :: "allocation_info_t \<Rightarrow> profiler \<Rightarrow> profiler" where
  "output_confirmed current s = (if is_suspicious current = 0 then output_leak_json current s else s)"

text \<open>
  \<^verbatim>\<open>write_dec(confirmed_count)\<close> converts the \<^verbatim>\<open>int\<close> to \<^verbatim>\<open>size_t\<close>.
\<close>

definition write_header :: "int \<Rightarrow> size_t \<Rightarrow> profiler \<Rightarrow> profiler" where
  "write_header confirmed_count confirmed_bytes s =
     (let s1 = write_str ''{\"type\":\"header\",\"leaks_count\":'' s;
          s2 = write_dec (word_of_int confirmed_count) s1;
          s3 = write_str '',\"total_bytes\":'' s2;
          s4 = write_dec confirmed_bytes s3
      in write_str (''}'' @ [CHR 0x0A]) s4)"

definition write_summary :: "int \<Rightarrow> size_t \<Rightarrow> int \<Rightarrow> size_t \<Rightarrow> profiler \<Rightarrow> profiler" where
  "write_summary confirmed_count confirmed_bytes suspicious_count suspicious_bytes s =
     (let s1 = write_str ''{\"type\":\"summary\",\"real_leaks\":'' s;
          s2 = write_dec (word_of_int confirmed_count) s1;
          s3 = write_str '',\"real_bytes\":'' s2;
          s4 = write_dec confirmed_bytes s3;
          s5 = write_str '',\"libc_leaks\":'' s4;
          s6 = write_dec (word_of_int suspicious_count) s5;
          s7 = write_str '',\"libc_bytes\":'' s6;
          s8 = write_dec suspicious_bytes s7
      in write_str (''}'' @ [CHR 0x0A]) s8)"

definition hash_table_report_leaks :: "profiler \<Rightarrow> profiler" where
  "hash_table_report_leaks s =
     (case HASH_ITER (g_allocations s) count_leak (0, 0, 0, 0) of
        (confirmed_count, suspicious_count, confirmed_bytes, suspicious_bytes) \<Rightarrow>
          let s1 = (if 0 < confirmed_count
                    then let h = write_header confirmed_count confirmed_bytes s
                         in HASH_ITER (g_allocations h) output_confirmed h
                    else s)
          in write_summary confirmed_count confirmed_bytes suspicious_count suspicious_bytes s1)"

text \<open>
  \<^verbatim>\<open>hash_table_cleanup\<close>: every record is unlinked and released, then the head of the
  table is set to the null pointer.
\<close>

definition cleanup_entry :: "allocation_info_t \<Rightarrow> profiler \<Rightarrow> profiler" where
  "cleanup_entry current s = free_info current (s\<lparr>g_allocations := HASH_DEL (g_allocations s) current\<rparr>)"

definition hash_table_cleanup :: "profiler \<Rightarrow> profiler" where
  "hash_table_cleanup s = (HASH_ITER (g_allocations s) cleanup_entry s)\<lparr>g_allocations := []\<rparr>"

subsection \<open>Pure views of the report's records\<close>

text \<open>
  What the output routines write, as functions of their arguments: the text of a number,
  of a stack frame, and of the three kinds of record of the report. The lemmas of the
  next section show that the C functions write exactly these texts.
\<close>

definition hex_text :: "64 word \<Rightarrow> string" where
  "hex_text val = (if val = 0 then ''0x0'' else ''0x'' @ rev (hex_loop val []))"

definition dec_text :: "size_t \<Rightarrow> string" where
  "dec_text val = (if val = 0 then ''0'' else rev (dec_loop val []))"

text \<open>
  The number that a text of decimal digits denotes, most significant digit first, and the
  number that a hexadecimal text denotes after its two characters of prefix.
\<close>

definition dec_value :: "string \<Rightarrow> nat" where
  "dec_value str = foldl (\<lambda>n c. 10 * n + (of_char c - of_char (CHR ''0''))) 0 str"

definition hex_digit_value :: "char \<Rightarrow> nat" where
  "hex_digit_value c =
     (if of_char c < (of_char (CHR ''a'') :: nat) then of_char c - of_char (CHR ''0'')
      else of_char c - of_char (CHR ''a'') + 10)"

definition hex_value :: "string \<Rightarrow> nat" where
  "hex_value str = foldl (\<lambda>n c. 16 * n + hex_digit_value c) 0 (drop 2 str)"

definition frame_text :: "profiler \<Rightarrow> addr list \<Rightarrow> nat \<Rightarrow> string" where
  "frame_text s fr i =
     (if 0 < i then '','' else [])
     @ ''{\"addr\":\"'' @ hex_text (fr ! i) @ ''\",\"bin\":\"''
     @ binary_name (dladdr s (fr ! i)) @ ''\"}''"

definition frames_text :: "profiler \<Rightarrow> allocation_info_t \<Rightarrow> string" where
  "frames_text s info =
     (case stack_trace info of
        None \<Rightarrow> []
      | Some fr \<Rightarrow>
          if show_stack_traces s \<noteq> 0 \<and> 0 < stack_depth info
          then concat (map (frame_text s fr) [0 ..< nat (min (stack_depth info) 7)])
          else [])"

definition leak_record :: "profiler \<Rightarrow> allocation_info_t \<Rightarrow> string" where
  "leak_record s info =
     ''{\"type\":\"leak\",\"addr\":\"'' @ hex_text (ptr info)
     @ ''\",\"size\":'' @ dec_text (size_bytes info)
     @ '',\"frames\":['' @ frames_text s info @ '']}'' @ [CHR 0x0A]"

definition header_record :: "int \<Rightarrow> size_t \<Rightarrow> string" where
  "header_record leaks_count total_bytes =
     ''{\"type\":\"header\",\"leaks_count\":'' @ dec_text (word_of_int leaks_count)
     @ '',\"total_bytes\":'' @ dec_text total_bytes @ ''}'' @ [CHR 0x0A]"

definition summary_record :: "int \<Rightarrow> size_t \<Rightarrow> int \<Rightarrow> size_t \<Rightarrow> string" where
  "summary_record real_leaks real_bytes libc_leaks libc_bytes =
     ''{\"type\":\"summary\",\"real_leaks\":'' @ dec_text (word_of_int real_leaks)
     @ '',\"real_bytes\":'' @ dec_text real_bytes
     @ '',\"libc_leaks\":'' @ dec_text (word_of_int libc_leaks)
     @ '',\"libc_bytes\":'' @ dec_text libc_bytes @ ''}'' @ [CHR 0x0A]"

text \<open>
  The classification of the records left at shutdown: a record is a confirmed leak when
  its flag \<^verbatim>\<open>is_suspicious\<close> is 0, a suspicious one otherwise.
\<close>

definition confirmed_leaks :: "profiler \<Rightarrow> allocation_info_t list" where
  "confirmed_leaks s = filter (\<lambda>r. is_suspicious r = 0) (g_allocations s)"

definition suspicious_leaks :: "profiler \<Rightarrow> allocation_info_t list" where
  "suspicious_leaks s = filter (\<lambda>r. is_suspicious r \<noteq> 0) (g_allocations s)"

subsection \<open>The interceptor and the classifier\<close>

datatype free_class = Valid | DoubleFree | InvalidFree

text \<open>
  Modelled from the spec: \<^verbatim>\<open>src/malloc_intercept.c\<close> (the hooks and the classification
  of a deallocation) is not among the sources. This is classifyFree of the spec (4.3)
  under the policy (b) of its design notes (9): no history of freed addresses is kept,
  the registry tells liveness only, so a pointer that is not live is an invalid free
  and a double free falls into that category.
\<close>

definition classifyFree :: "profiler \<Rightarrow> addr \<Rightarrow> free_class" where
  "classifyFree registry pointer =
     (if hash_table_find pointer registry = 1 then Valid else InvalidFree)"

text \<open>
  Modelled from the spec: \<^verbatim>\<open>src/malloc_intercept.c\<close> is not among the sources. This is
  deallocate of the spec (4.2): a null pointer is a no-op; otherwise the classifier is
  consulted, the record of a valid free is removed, and any other outcome is reported
  as one corruption event (its kind and the address). The call of the real
  deallocation function, made in every case, is outside the state. The result is the
  list of the corruption events of this call and the new state.
\<close>

definition deallocate :: "addr \<Rightarrow> profiler \<Rightarrow> (free_class \<times> addr) list \<times> profiler" where
  "deallocate pointer s =
     (if pointer = 0 then ([], s)
      else case classifyFree s pointer of
        Valid \<Rightarrow> ([], hash_table_remove pointer s)
      | DoubleFree \<Rightarrow> ([(DoubleFree, pointer)], s)
      | InvalidFree \<Rightarrow> ([(InvalidFree, pointer)], s))"

text \<open>
  Modelled from the spec: \<^verbatim>\<open>src/malloc_intercept.c\<close> is not among the sources. This is
  allocate of the spec (4.2): \<open>result\<close> is what the real allocator returned (the null
  pointer when it failed), \<open>frames\<close> and \<open>depth\<close> the captured stack trace,
  \<open>suspicious\<close> the outcome of the heuristic; the record is registered with
  \<open>hash_table_add\<close>, and the caller receives \<open>result\<close> whatever the tracking does.
\<close>

definition allocate :: "addr \<Rightarrow> size_t \<Rightarrow> addr list \<Rightarrow> int \<Rightarrow> int \<Rightarrow> profiler \<Rightarrow> profiler" where
  "allocate result sz frames depth suspicious s = hash_table_add result sz frames depth suspicious s"

text \<open>
  The calls of a target program, as the hooks see them, and their run from a state: the
  corruption events of all calls, in order, and the final state.
\<close>

datatype call =
  Allocate addr size_t "addr list" int int
  | Deallocate addr

fun run_call :: "call \<Rightarrow> (free_class \<times> addr) list \<times> profiler \<Rightarrow> (free_class \<times> addr) list \<times> profiler" where
  "run_call (Allocate result sz frames depth suspicious) (events, s) =
     (events, allocate result sz frames depth suspicious s)"
| "run_call (Deallocate pointer) (events, s) =
     (events @ fst (deallocate pointer s), snd (deallocate pointer s))"

definition run :: "call list \<Rightarrow> profiler \<Rightarrow> (free_class \<times> addr) list \<times> profiler" where
  "run calls s = fold run_call calls ([], s)"


fun mentions :: "addr \<Rightarrow> call \<Rightarrow> bool" where
  "mentions p (Allocate result sz frames depth suspicious) = (result = p)"
| "mentions p (Deallocate pointer) = (pointer = p)"

subsection \<open>Sequences of registry operations\<close>

datatype registry_op =
  Insert addr size_t "addr list" int int
  | Remove addr
  | Reset

fun apply_op :: "registry_op \<Rightarrow> profiler \<Rightarrow> profiler" where
  "apply_op (Insert p sz trace depth suspicious) s = hash_table_add p sz trace depth suspicious s"
| "apply_op (Remove p) s = hash_table_remove p s"
| "apply_op Reset s = hash_table_init s"

text \<open>
  A sequence of operations from a state in which every insert is for an address that is
  not live at that moment: what a caller gets that inserts the results of the real
  allocator and removes a record before the address is released.
\<close>

fun inserts_fresh :: "registry_op list \<Rightarrow> profiler \<Rightarrow> bool" where
  "inserts_fresh [] s = True"
| "inserts_fresh (Insert p sz trace depth suspicious # ops) s =
     (hash_table_find p s = 0 \<and> inserts_fresh ops (hash_table_add p sz trace depth suspicious s))"
| "inserts_fresh (Remove p # ops) s = inserts_fresh ops (hash_table_remove p s)"
| "inserts_fresh (Reset # ops) s = inserts_fresh ops (hash_table_init s)"

subsection \<open>Example states\<close>

text \<open>
  A real allocator that always returns memory, one that never does, a dynamic linker
  that resolves no address, and the state of a process whose registry is empty and whose
  real allocator is resolved.
\<close>

definition always_memory :: "nat \<Rightarrow> bool" where
  "always_memory k = True"

definition never_memory :: "nat \<Rightarrow> bool" where
  "never_memory k = False"

definition only_first_call :: "nat \<Rightarrow> bool" where
  "only_first_call k = (k = 0)"

definition no_symbols :: "addr \<Rightarrow> string option" where
  "no_symbols a = None"

definition started :: profiler where
  "started = \<lparr>g_allocations = [], real_malloc_ptr = Some always_memory, malloc_calls = 0,
     real_free_log = [], stderr_out = [], show_stack_traces = 1, clock = 0,
     dladdr = no_symbols\<rparr>"

text \<open>
  The scenario "simple leak" of the tests: allocations of 1024 and 512 bytes that stay,
  and one of 256 bytes that is freed.
\<close>

definition simple_leak :: profiler where
  "simple_leak =
     hash_table_remove 0x3000
       (hash_table_add 0x3000 256 [] 0 0
          (hash_table_add 0x2000 512 [] 0 0
             (hash_table_add 0x1000 1024 [] 0 0 started)))"

text \<open>One allocation of 64 bytes that the heuristic marks as suspicious.\<close>

definition libc_only :: profiler where
  "libc_only = hash_table_add 0x1000 64 [] 0 1 started"

section \<open>Properties of the registry\<close>

subsection \<open>The hash table macros\<close>

lemma find_SomeD: "find P xs = Some x \<Longrightarrow> P x \<and> x \<in> set xs"
  by (induction xs) (auto split: if_splits)

lemma distinct_map_remove1: "distinct (map f xs) \<Longrightarrow> distinct (map f (remove1 x xs))"
proof (induction xs)
  case Nil
  then show ?case by simp
next
  case (Cons a xs)
  have "f ` set (remove1 x xs) \<subseteq> f ` set xs"
    using set_remove1_subset [of x xs] by blast
  with Cons show ?case by auto
qed

lemma HASH_FIND_PTR_None: "HASH_FIND_PTR head key = None \<longleftrightarrow> key \<notin> ptr ` set head"
  by (auto simp: HASH_FIND_PTR_def find_None_iff)

lemma HASH_FIND_PTR_Some: "HASH_FIND_PTR head key = Some found \<Longrightarrow> ptr found = key \<and> found \<in> set head"
  by (auto simp: HASH_FIND_PTR_def dest: find_SomeD)

lemma filter_HASH_DEL: "filter P (HASH_DEL head r) = rev (remove1 r (rev (filter P head)))"
  by (simp add: HASH_DEL_def rev_filter [symmetric] filter_remove1)

lemma filter_HASH_DEL_other: "\<not> P r \<Longrightarrow> filter P (HASH_DEL head r) = filter P head"
  by (simp add: filter_HASH_DEL remove1_idem)


lemma distinct_keys_HASH_DEL: "distinct (map ptr head) \<Longrightarrow> distinct (map ptr (HASH_DEL head r))"
proof -
  assume "distinct (map ptr head)"
  then have "distinct (map ptr (rev head))"
    by (simp add: rev_map [symmetric])
  then have "distinct (map ptr (remove1 r (rev head)))"
    by (rule distinct_map_remove1)
  then show ?thesis
    by (simp add: HASH_DEL_def rev_map [symmetric])
qed

subsection \<open>Lookup and removal\<close>

lemma hash_table_find_cases: "hash_table_find p s = 0 \<or> hash_table_find p s = 1"
  by (simp add: hash_table_find_def split: option.splits)

lemma hash_table_find_live: "hash_table_find p s = 1 \<longleftrightarrow> p \<noteq> 0 \<and> p \<in> ptr ` set (g_allocations s)"
proof (cases "HASH_FIND_PTR (g_allocations s) p")
  case None
  then have "p \<notin> ptr ` set (g_allocations s)"
    by (simp add: HASH_FIND_PTR_None)
  with None show ?thesis by (simp add: hash_table_find_def)
next
  case (Some found)
  then have "p \<in> ptr ` set (g_allocations s)"
    using HASH_FIND_PTR_None [of "g_allocations s" p] by simp
  with Some show ?thesis by (simp add: hash_table_find_def)
qed

lemma hash_table_remove_absent: "hash_table_find p s = 0 \<Longrightarrow> hash_table_remove p s = s"
  by (simp add: hash_table_find_def hash_table_remove_def split: option.splits if_splits)

subsection \<open>Reset\<close>

text \<open>
  Claim C7, as the code has it. \<open>hash_table_init\<close> (the registry's reset) is idempotent,
  and after it every query finds nothing, whatever the registry held before: the table is
  empty, and for every address \<open>hash_table_find\<close> returns 0 and the lookup that
  \<open>hash_table_remove\<close> makes yields the null pointer, so that \<open>hash_table_remove\<close>
  unlinks nothing, hands nothing to \<^verbatim>\<open>real_free_ptr\<close> and leaves the state as it is.
  \<open>hash_table_remove\<close> returns nothing and signals nothing: that the address is not
  present shows in the answer of \<open>hash_table_find\<close> only.
\<close>

theorem reset_idempotent_and_empty:
  "hash_table_init (hash_table_init s) = hash_table_init s
   \<and> g_allocations (hash_table_init s) = []
   \<and> hash_table_find p (hash_table_init s) = 0
   \<and> HASH_FIND_PTR (g_allocations (hash_table_init s)) p = None
   \<and> hash_table_remove p (hash_table_init s) = hash_table_init s
   \<and> real_free_log (hash_table_remove p (hash_table_init s)) = real_free_log s"
  by (simp add: hash_table_init_def hash_table_find_def hash_table_remove_def HASH_FIND_PTR_def)

text \<open>
  The claim as the spec states it fails in its last part: \<open>hash_table_remove\<close> reports
  nothing. Take a registry with one record, at \<open>0x1000\<close>. Without a reset the address is
  present, after a reset it is not; the call of \<open>hash_table_remove\<close>, which returns
  nothing, leaves the same empty registry in both cases, so that its caller is not told
  that the address was not present.
\<close>

theorem remove_after_reset_signals_nothing:
  "hash_table_find 0x1000 (hash_table_add 0x1000 100 [] 0 0 started) = 1
   \<and> hash_table_find 0x1000 (hash_table_init (hash_table_add 0x1000 100 [] 0 0 started)) = 0
   \<and> g_allocations (hash_table_remove 0x1000 (hash_table_add 0x1000 100 [] 0 0 started)) = []
   \<and> g_allocations
        (hash_table_remove 0x1000 (hash_table_init (hash_table_add 0x1000 100 [] 0 0 started))) = []
   \<and> hash_table_find 0x1000
        (hash_table_remove 0x1000 (hash_table_add 0x1000 100 [] 0 0 started))
     = hash_table_find 0x1000
        (hash_table_remove 0x1000 (hash_table_init (hash_table_add 0x1000 100 [] 0 0 started)))"
  by (simp add: started_def always_memory_def hash_table_add_def hash_table_remove_def
      hash_table_find_def hash_table_init_def HASH_ADD_PTR_def HASH_FIND_PTR_def HASH_DEL_def
      free_info_def real_free_ptr_def)

subsection \<open>Insertion before the real allocator is resolved\<close>

text \<open>
  Claim C8. While \<open>real_malloc_ptr\<close> is the null pointer, \<open>hash_table_add\<close> does
  nothing at all: the state after the call is the state before it. No record is
  created, nothing is written to the error stream, and the leak report that follows is
  the one that would have been written without the call.
\<close>

theorem add_before_bootstrap_tracks_nothing:
  assumes "real_malloc_ptr s = None"
  shows "hash_table_add p sz trace depth suspicious s = s
    \<and> g_allocations (hash_table_add p sz trace depth suspicious s) = g_allocations s
    \<and> hash_table_find p (hash_table_add p sz trace depth suspicious s) = hash_table_find p s
    \<and> hash_table_report_leaks (hash_table_add p sz trace depth suspicious s) = hash_table_report_leaks s"
  using assms by (simp add: hash_table_add_def)

theorem add_before_bootstrap_witness:
  "real_malloc_ptr (started\<lparr>real_malloc_ptr := None\<rparr>) = None
   \<and> hash_table_add 4096 1024 [] 0 0 (started\<lparr>real_malloc_ptr := None\<rparr>) = started\<lparr>real_malloc_ptr := None\<rparr>
   \<and> hash_table_find 4096 (hash_table_add 4096 1024 [] 0 0 (started\<lparr>real_malloc_ptr := None\<rparr>)) = 0"
  using add_before_bootstrap_tracks_nothing [of "started\<lparr>real_malloc_ptr := None\<rparr>" 4096 1024 "[]" 0 0]
  by (simp add: started_def hash_table_find_def HASH_FIND_PTR_def)

subsection \<open>What the output routines write\<close>

lemma write_stderr_twice: "write_stderr b (write_stderr a s) = write_stderr (a @ b) s"
  by (simp add: write_stderr_def)

lemma write_stderr_Nil: "write_stderr [] s = s"
  by (simp add: write_stderr_def)

lemma write_stderr_fields:
  "g_allocations (write_stderr b s) = g_allocations s"
  "dladdr (write_stderr b s) = dladdr s"
  "show_stack_traces (write_stderr b s) = show_stack_traces s"
  "stderr_out (write_stderr b s) = stderr_out s @ b"
  by (simp_all add: write_stderr_def)

lemma write_stderr_only_stderr: "write_stderr b s = s\<lparr>stderr_out := stderr_out (write_stderr b s)\<rparr>"
  by (simp add: write_stderr_def)

lemma write_hex_text: "write_hex val s = write_stderr (hex_text val) s"
  by (simp add: write_hex_def hex_text_def write_stderr_twice)

lemma write_dec_text: "write_dec val s = write_stderr (dec_text val) s"
  by (simp add: write_dec_def dec_text_def)

lemma frame_text_write_stderr: "frame_text (write_stderr b s) = frame_text s"
  by (rule ext)+ (simp add: frame_text_def write_stderr_fields)

lemma output_frame_text: "output_frame fr i s = write_stderr (frame_text s fr i) s"
  by (simp add: output_frame_def frame_text_def write_str_def write_hex_text write_stderr_twice
      write_stderr_fields Let_def)

lemma fold_output_frame:
  "fold (output_frame fr) is s = write_stderr (concat (map (frame_text s fr) is)) s"
proof (induction "is" arbitrary: s)
  case Nil
  show ?case by (simp add: write_stderr_Nil)
next
  case (Cons i "is")
  have "fold (output_frame fr) (i # is) s = fold (output_frame fr) is (output_frame fr i s)"
    by simp
  also have "\<dots> = fold (output_frame fr) is (write_stderr (frame_text s fr i) s)"
    by (simp only: output_frame_text)
  also have "\<dots> = write_stderr (concat (map (frame_text (write_stderr (frame_text s fr i) s) fr) is))
                       (write_stderr (frame_text s fr i) s)"
    by (rule Cons.IH)
  also have "\<dots> = write_stderr (concat (map (frame_text s fr) (i # is))) s"
    by (simp add: frame_text_write_stderr write_stderr_twice)
  finally show ?case .
qed

lemma frames_text_write_stderr: "frames_text (write_stderr b s) = frames_text s"
  by (rule ext) (simp add: frames_text_def frame_text_write_stderr write_stderr_fields split: option.splits)

lemma leak_record_write_stderr: "leak_record (write_stderr b s) = leak_record s"
  by (rule ext) (simp add: leak_record_def frames_text_write_stderr)

lemma output_leak_json_text: "output_leak_json info s = write_stderr (leak_record s info) s"
proof (cases "stack_trace info")
  case None
  then show ?thesis
    by (simp add: output_leak_json_def leak_record_def frames_text_def write_str_def
        write_hex_text write_dec_text write_stderr_twice Let_def)
next
  case (Some fr)
  have m: "(if stack_depth info < 7 then stack_depth info else 7) = min (stack_depth info) 7"
    by simp
  from Some show ?thesis
    unfolding output_leak_json_def leak_record_def frames_text_def write_str_def Let_def m
    by (simp add: write_hex_text write_dec_text write_stderr_twice write_stderr_fields
        fold_output_frame frame_text_write_stderr)
qed

lemma fold_output_confirmed:
  "fold output_confirmed rs s
   = write_stderr (concat (map (leak_record s) (filter (\<lambda>r. is_suspicious r = 0) rs))) s"
proof (induction rs arbitrary: s)
  case Nil
  show ?case by (simp add: write_stderr_Nil)
next
  case (Cons r rs)
  have step: "fold output_confirmed (r # rs) s = fold output_confirmed rs (output_confirmed r s)"
    by simp
  show ?case
  proof (cases "is_suspicious r = 0")
    case True
    then have "output_confirmed r s = write_stderr (leak_record s r) s"
      by (simp add: output_confirmed_def output_leak_json_text)
    with True show ?thesis
      unfolding step by (simp add: Cons.IH leak_record_write_stderr write_stderr_twice)
  next
    case False
    then have "output_confirmed r s = s"
      by (simp add: output_confirmed_def)
    with False show ?thesis
      unfolding step by (simp add: Cons.IH)
  qed
qed

lemma fold_count_leak:
  "fold count_leak rs (cc, sc, cb, sb)
   = (cc + int (length (filter (\<lambda>r. is_suspicious r = 0) rs)),
      sc + int (length (filter (\<lambda>r. is_suspicious r \<noteq> 0) rs)),
      cb + sum_list (map size_bytes (filter (\<lambda>r. is_suspicious r = 0) rs)),
      sb + sum_list (map size_bytes (filter (\<lambda>r. is_suspicious r \<noteq> 0) rs)))"
proof (induction rs arbitrary: cc sc cb sb)
  case Nil
  show ?case by simp
next
  case (Cons r rs)
  have step: "fold count_leak (r # rs) (cc, sc, cb, sb) = fold count_leak rs (count_leak r (cc, sc, cb, sb))"
    by simp
  show ?case
  proof (cases "is_suspicious r = 0")
    case True
    then have "count_leak r (cc, sc, cb, sb) = (cc + 1, sc, cb + size_bytes r, sb)"
      by (simp add: count_leak_def)
    with True show ?thesis
      unfolding step by (simp add: Cons.IH add.assoc)
  next
    case False
    then have "count_leak r (cc, sc, cb, sb) = (cc, sc + 1, cb, sb + size_bytes r)"
      by (simp add: count_leak_def)
    with False show ?thesis
      unfolding step by (simp add: Cons.IH add.assoc)
  qed
qed

lemma write_header_text: "write_header n b s = write_stderr (header_record n b) s"
  by (simp add: write_header_def header_record_def write_str_def write_dec_text write_stderr_twice Let_def)

lemma write_summary_text: "write_summary n b m c s = write_stderr (summary_record n b m c) s"
  by (simp add: write_summary_def summary_record_def write_str_def write_dec_text write_stderr_twice Let_def)

text \<open>
  The whole report: the header and the leak records when a confirmed leak exists, and
  the summary in every case.
\<close>

lemma report_text:
  "hash_table_report_leaks s
   = write_stderr
       ((if confirmed_leaks s = [] then []
         else header_record (int (length (confirmed_leaks s)))
                (sum_list (map size_bytes (confirmed_leaks s)))
              @ concat (map (leak_record s) (confirmed_leaks s)))
        @ summary_record (int (length (confirmed_leaks s)))
            (sum_list (map size_bytes (confirmed_leaks s)))
            (int (length (suspicious_leaks s)))
            (sum_list (map size_bytes (suspicious_leaks s)))) s"
  by (simp add: hash_table_report_leaks_def HASH_ITER_def fold_count_leak write_header_text
      write_summary_text fold_output_confirmed write_stderr_fields write_stderr_twice
      leak_record_write_stderr confirmed_leaks_def suspicious_leaks_def Let_def)

lemma unat_sum_list_size:
  "unat (sum_list (map size_bytes rs)) = sum_list (map (\<lambda>r. unat (size_bytes r)) rs) mod 2 ^ 64"
proof (induction rs)
  case Nil
  show ?case by simp
next
  case (Cons r rs)
  show ?case
    by (simp add: Cons.IH unat_word_ariths mod_simps)
qed

text \<open>
  The conversion loops write the value: the text of \<open>write_dec\<close> reads back as the
  number, and so does the text of \<open>write_hex\<close>. The bound of 30 characters of the loops
  is never reached, a 64-bit value having at most 20 decimal digits.
\<close>

declare dec_loop.simps [simp del]

declare hex_loop.simps [simp del]

lemma prefix_split:
  assumes "take (Suc (length buf)) xs = buf @ [d]"
  shows "take (length buf) xs = buf"
    and "drop (length buf) xs = d # drop (Suc (length buf)) xs"
proof -
  define r where "r = drop (Suc (length buf)) xs"
  have "take (Suc (length buf)) xs @ r = xs"
    unfolding r_def by (rule append_take_drop_id)
  with assms have xs: "xs = buf @ d # r" by simp
  show "take (length buf) xs = buf"
    unfolding xs by simp
  show "drop (length buf) xs = d # drop (Suc (length buf)) xs"
    unfolding r_def [symmetric] unfolding xs by simp
qed

lemma dec_loop_value:
  "unat val < 10 ^ (30 - length buf)
   \<Longrightarrow> foldr (\<lambda>c n. 10 * n + (of_char c - of_char (CHR ''0''))) (drop (length buf) (dec_loop val buf)) 0
       = unat val \<and> take (length buf) (dec_loop val buf) = buf"
proof (induction val buf rule: dec_loop.induct)
  case (1 val buf)
  show ?case
  proof (cases "0 < val \<and> length buf < 30")
    case False
    then have "val = 0 \<or> \<not> length buf < 30"
      using word_neq_0_conv by blast
    with "1.prems" have "val = 0"
      by (auto simp: unat_eq_0)
    then show ?thesis
      by (subst dec_loop.simps, subst (2) dec_loop.simps) simp
  next
    case True
    define d :: char where "d = char_of (of_char (CHR ''0'') + unat (val mod 10))"
    have u: "unat (val div 10) = unat val div 10" "unat (val mod 10) = unat val mod 10"
      by (simp_all add: unat_div unat_mod)
    from True have "length buf < 30" by simp
    then have "30 - length buf = Suc (30 - length (buf @ [d]))" by simp
    with "1.prems" have "unat val < 10 * 10 ^ (30 - length (buf @ [d]))" by simp
    then have "unat (val div 10) < 10 ^ (30 - length (buf @ [d]))"
      unfolding u by (simp add: less_mult_imp_div_less mult.commute)
    from "1.IH" [OF True, folded d_def, OF this]
    have ih: "foldr (\<lambda>c n. 10 * n + (of_char c - of_char (CHR ''0'')))
                (drop (Suc (length buf)) (dec_loop (val div 10) (buf @ [d]))) 0
              = unat val div 10"
      and pre: "take (Suc (length buf)) (dec_loop (val div 10) (buf @ [d])) = buf @ [d]"
      unfolding u by simp_all
    have eq: "dec_loop val buf = dec_loop (val div 10) (buf @ [d])"
      using True unfolding d_def by (subst dec_loop.simps) simp
    have dv: "of_char d - of_char (CHR ''0'') = unat val mod 10"
      unfolding d_def u by (simp add: of_char_of [where ?'a = nat])
    from prefix_split [OF pre] ih dv show ?thesis
      unfolding eq by simp
  qed
qed

lemma dec_text_value: "dec_value (dec_text val) = unat val"
proof (cases "val = 0")
  case True
  then show ?thesis by (simp add: dec_text_def dec_value_def)
next
  case False
  have "unat val < 2 ^ 64"
    using unsigned_less [of val, where ?'a = nat] by simp
  also have "(2::nat) ^ 64 < 10 ^ (30 - length ([] :: string))"
    by simp
  finally have "foldr (\<lambda>c n. 10 * n + (of_char c - of_char (CHR ''0''))) (dec_loop val []) 0 = unat val"
    using dec_loop_value [of val "[]"] by simp
  with False show ?thesis
    by (simp add: dec_text_def dec_value_def foldl_conv_foldr)
qed

lemma hex_digit_value_digit:
  assumes "d < 16"
  shows "hex_digit_value (if d < 10 then char_of (of_char (CHR ''0'') + d)
                          else char_of (of_char (CHR ''a'') + d - 10)) = d"
  using assms by (auto simp: hex_digit_value_def of_char_of [where ?'a = nat])

lemma hex_loop_value:
  "unat val < 16 ^ (30 - length buf)
   \<Longrightarrow> foldr (\<lambda>c n. 16 * n + hex_digit_value c) (drop (length buf) (hex_loop val buf)) 0
       = unat val \<and> take (length buf) (hex_loop val buf) = buf"
proof (induction val buf rule: hex_loop.induct)
  case (1 val buf)
  show ?case
  proof (cases "0 < val \<and> length buf < 30")
    case False
    then have "val = 0 \<or> \<not> length buf < 30"
      using word_neq_0_conv by blast
    with "1.prems" have "val = 0"
      by (auto simp: unat_eq_0)
    then show ?thesis
      by (subst hex_loop.simps, subst (2) hex_loop.simps) simp
  next
    case True
    define d :: char where "d = (let digit = unat (val mod 16)
               in if digit < 10 then char_of (of_char (CHR ''0'') + digit)
                  else char_of (of_char (CHR ''a'') + digit - 10))"
    have u: "unat (val div 16) = unat val div 16" "unat (val mod 16) = unat val mod 16"
      by (simp_all add: unat_div unat_mod)
    from True have "length buf < 30" by simp
    then have "30 - length buf = Suc (30 - length (buf @ [d]))" by simp
    with "1.prems" have "unat val < 16 * 16 ^ (30 - length (buf @ [d]))" by simp
    then have "unat (val div 16) < 16 ^ (30 - length (buf @ [d]))"
      unfolding u by (simp add: less_mult_imp_div_less mult.commute)
    from "1.IH" [OF True, folded d_def, OF this]
    have ih: "foldr (\<lambda>c n. 16 * n + hex_digit_value c)
                (drop (Suc (length buf)) (hex_loop (val div 16) (buf @ [d]))) 0
              = unat val div 16"
      and pre: "take (Suc (length buf)) (hex_loop (val div 16) (buf @ [d])) = buf @ [d]"
      unfolding u by simp_all
    have eq: "hex_loop val buf = hex_loop (val div 16) (buf @ [d])"
      using True unfolding d_def by (subst hex_loop.simps) simp
    have dv: "hex_digit_value d = unat val mod 16"
      unfolding d_def u Let_def by (rule hex_digit_value_digit) simp
    from prefix_split [OF pre] ih dv show ?thesis
      unfolding eq by simp
  qed
qed

lemma hex_text_value: "hex_value (hex_text val) = unat val"
proof (cases "val = 0")
  case True
  then show ?thesis by (simp add: hex_text_def hex_value_def hex_digit_value_def)
next
  case False
  have "unat val < 2 ^ 64"
    using unsigned_less [of val, where ?'a = nat] by simp
  also have "(2::nat) ^ 64 < 16 ^ (30 - length ([] :: string))"
    by simp
  finally have "foldr (\<lambda>c n. 16 * n + hex_digit_value c) (hex_loop val []) 0 = unat val"
    using hex_loop_value [of val "[]"] by simp
  with False show ?thesis
    by (simp add: hex_text_def hex_value_def foldl_conv_foldr)
qed

subsection \<open>Example runs\<close>

lemma dec_text_values:
  "dec_text 0 = ''0''" "dec_text 1 = ''1''" "dec_text 2 = ''2''" "dec_text 64 = ''64''"
  "dec_text 512 = ''512''" "dec_text 1024 = ''1024''" "dec_text 1536 = ''1536''"
  by code_simp+

lemma hex_text_values:
  "hex_text 0x1000 = ''0x1000''" "hex_text 0x2000 = ''0x2000''"
  by code_simp+

lemma simple_leak_registry:
  "g_allocations simple_leak
   = [\<lparr>ptr = 0x1000, size_bytes = 1024, timestamp = 0, stack_trace = Some [], stack_depth = 0,
        is_suspicious = 0\<rparr>,
      \<lparr>ptr = 0x2000, size_bytes = 512, timestamp = 0, stack_trace = Some [], stack_depth = 0,
        is_suspicious = 0\<rparr>]"
  by (simp add: simple_leak_def started_def always_memory_def hash_table_add_def
      hash_table_remove_def HASH_ADD_PTR_def HASH_FIND_PTR_def HASH_DEL_def free_info_def
      real_free_ptr_def)

lemma simple_leak_stderr: "stderr_out simple_leak = []"
  by (simp add: simple_leak_def started_def always_memory_def hash_table_add_def
      hash_table_remove_def HASH_ADD_PTR_def HASH_FIND_PTR_def HASH_DEL_def free_info_def
      real_free_ptr_def)

lemma libc_only_registry:
  "g_allocations libc_only
   = [\<lparr>ptr = 0x1000, size_bytes = 64, timestamp = 0, stack_trace = Some [], stack_depth = 0,
        is_suspicious = 1\<rparr>]"
  by (simp add: libc_only_def started_def always_memory_def hash_table_add_def HASH_ADD_PTR_def)

lemma libc_only_stderr: "stderr_out libc_only = []"
  by (simp add: libc_only_def started_def always_memory_def hash_table_add_def HASH_ADD_PTR_def)

subsection \<open>The leak report\<close>

text \<open>
  Claim C5. The report is the text that \<open>hash_table_report_leaks\<close> appends to the error
  stream. It starts with the header record (followed by the leak records) if and only if
  the registry holds a record that is not suspicious, and it ends, in every case, with
  the summary record, which carries the number and the bytes of the confirmed leaks and
  the number and the bytes of the suspicious ones. With no record at all the report is
  the summary alone, with four zeros.
\<close>

theorem report_header_iff_confirmed_leak:
  "stderr_out (hash_table_report_leaks s)
   = stderr_out s
     @ (if (\<exists>r \<in> set (g_allocations s). is_suspicious r = 0)
        then header_record (int (length (confirmed_leaks s)))
               (sum_list (map size_bytes (confirmed_leaks s)))
             @ concat (map (leak_record s) (confirmed_leaks s))
        else [])
     @ summary_record (int (length (confirmed_leaks s)))
         (sum_list (map size_bytes (confirmed_leaks s)))
         (int (length (suspicious_leaks s)))
         (sum_list (map size_bytes (suspicious_leaks s)))"
proof -
  have "(confirmed_leaks s = []) = (\<not> (\<exists>r \<in> set (g_allocations s). is_suspicious r = 0))"
    by (simp add: confirmed_leaks_def filter_empty_conv)
  then show ?thesis
    by (simp add: report_text write_stderr_fields)
qed

theorem report_header_witness:
  "stderr_out (hash_table_report_leaks started)
   = ''{\"type\":\"summary\",\"real_leaks\":0,\"real_bytes\":0,\"libc_leaks\":0,\"libc_bytes\":0}''
     @ [CHR 0x0A]
   \<and> stderr_out (hash_table_report_leaks libc_only)
   = ''{\"type\":\"summary\",\"real_leaks\":0,\"real_bytes\":0,\"libc_leaks\":1,\"libc_bytes\":64}''
     @ [CHR 0x0A]
   \<and> stderr_out (hash_table_report_leaks (hash_table_add 0x2000 512 [] 0 0 libc_only))
   = ''{\"type\":\"header\",\"leaks_count\":1,\"total_bytes\":512}'' @ [CHR 0x0A]
     @ ''{\"type\":\"leak\",\"addr\":\"0x2000\",\"size\":512,\"frames\":[]}'' @ [CHR 0x0A]
     @ ''{\"type\":\"summary\",\"real_leaks\":1,\"real_bytes\":512,\"libc_leaks\":1,\"libc_bytes\":64}''
     @ [CHR 0x0A]"
proof -
  have a: "g_allocations started = []" "stderr_out started = []"
    by (simp_all add: started_def)
  have b: "g_allocations (hash_table_add 0x2000 512 [] 0 0 libc_only)
      = [\<lparr>ptr = 0x1000, size_bytes = 64, timestamp = 0, stack_trace = Some [], stack_depth = 0,
           is_suspicious = 1\<rparr>,
         \<lparr>ptr = 0x2000, size_bytes = 512, timestamp = 0, stack_trace = Some [], stack_depth = 0,
           is_suspicious = 0\<rparr>]"
    "stderr_out (hash_table_add 0x2000 512 [] 0 0 libc_only) = []"
    by (simp_all add: libc_only_def started_def always_memory_def hash_table_add_def HASH_ADD_PTR_def)
  show ?thesis
    using report_header_iff_confirmed_leak [of started]
      report_header_iff_confirmed_leak [of libc_only]
      report_header_iff_confirmed_leak [of "hash_table_add 0x2000 512 [] 0 0 libc_only"]
    by (simp add: a b libc_only_registry libc_only_stderr
        confirmed_leaks_def suspicious_leaks_def header_record_def summary_record_def
        leak_record_def frames_text_def dec_text_values hex_text_values)
qed

text \<open>
  Claim C3, as the code has it. The leak records of the report are those of the confirmed
  leaks, one record for each in the order of insertion, and each carries the address and
  the recorded size of its allocation; when there is a confirmed leak the header comes
  first, and its total is the sum of the sizes of the confirmed leaks, in the arithmetic
  of \<^verbatim>\<open>size_t\<close> (modulo \<open>2^64\<close>). A suspicious record has no leak record: the summary
  counts it and adds its size to the suspicious bytes. The decimal text of a size and
  the hexadecimal text of an address read back as the size and the address.
\<close>

theorem report_lists_confirmed_leaks:
  "stderr_out (hash_table_report_leaks s)
   = stderr_out s
     @ (if confirmed_leaks s = [] then []
        else header_record (int (length (confirmed_leaks s)))
               (sum_list (map size_bytes (confirmed_leaks s))))
     @ concat (map (\<lambda>info. ''{\"type\":\"leak\",\"addr\":\"'' @ hex_text (ptr info)
                      @ ''\",\"size\":'' @ dec_text (size_bytes info)
                      @ '',\"frames\":['' @ frames_text s info @ '']}'' @ [CHR 0x0A])
                (filter (\<lambda>r. is_suspicious r = 0) (g_allocations s)))
     @ summary_record (int (length (confirmed_leaks s)))
         (sum_list (map size_bytes (confirmed_leaks s)))
         (int (length (suspicious_leaks s)))
         (sum_list (map size_bytes (suspicious_leaks s)))
   \<and> unat (sum_list (map size_bytes (confirmed_leaks s)))
     = sum_list (map (\<lambda>r. unat (size_bytes r)) (confirmed_leaks s)) mod 2 ^ 64
   \<and> dec_value (dec_text sz) = unat sz
   \<and> hex_value (hex_text p) = unat p"
proof -
  have "leak_record s = (\<lambda>info. ''{\"type\":\"leak\",\"addr\":\"'' @ hex_text (ptr info)
                      @ ''\",\"size\":'' @ dec_text (size_bytes info)
                      @ '',\"frames\":['' @ frames_text s info @ '']}'' @ [CHR 0x0A])"
    by (rule ext) (simp add: leak_record_def)
  then have "stderr_out (hash_table_report_leaks s)
   = stderr_out s
     @ (if confirmed_leaks s = [] then []
        else header_record (int (length (confirmed_leaks s)))
               (sum_list (map size_bytes (confirmed_leaks s))))
     @ concat (map (\<lambda>info. ''{\"type\":\"leak\",\"addr\":\"'' @ hex_text (ptr info)
                      @ ''\",\"size\":'' @ dec_text (size_bytes info)
                      @ '',\"frames\":['' @ frames_text s info @ '']}'' @ [CHR 0x0A])
                (filter (\<lambda>r. is_suspicious r = 0) (g_allocations s)))
     @ summary_record (int (length (confirmed_leaks s)))
         (sum_list (map size_bytes (confirmed_leaks s)))
         (int (length (suspicious_leaks s)))
         (sum_list (map size_bytes (suspicious_leaks s)))"
    by (simp add: report_text write_stderr_fields confirmed_leaks_def)
  then show ?thesis
    by (simp only: unat_sum_list_size dec_text_value hex_text_value simp_thms)
qed

theorem report_lists_confirmed_leaks_witness:
  "stderr_out (hash_table_report_leaks simple_leak)
   = ''{\"type\":\"header\",\"leaks_count\":2,\"total_bytes\":1536}'' @ [CHR 0x0A]
     @ ''{\"type\":\"leak\",\"addr\":\"0x1000\",\"size\":1024,\"frames\":[]}'' @ [CHR 0x0A]
     @ ''{\"type\":\"leak\",\"addr\":\"0x2000\",\"size\":512,\"frames\":[]}'' @ [CHR 0x0A]
     @ ''{\"type\":\"summary\",\"real_leaks\":2,\"real_bytes\":1536,\"libc_leaks\":0,\"libc_bytes\":0}''
     @ [CHR 0x0A]"
  using report_lists_confirmed_leaks [of simple_leak]
  by (simp add: simple_leak_registry simple_leak_stderr confirmed_leaks_def suspicious_leaks_def
      header_record_def summary_record_def frames_text_def dec_text_values hex_text_values)

text \<open>
  The claim as the spec states it fails for a suspicious allocation: it is inserted, it
  is never removed, and the report has no leak record for it.
\<close>

theorem suspicious_leak_not_listed:
  "g_allocations (hash_table_add 0x1000 64 [] 0 1 started)
   = [\<lparr>ptr = 0x1000, size_bytes = 64, timestamp = 0, stack_trace = Some [], stack_depth = 0,
        is_suspicious = 1\<rparr>]
   \<and> stderr_out (hash_table_report_leaks (hash_table_add 0x1000 64 [] 0 1 started))
   = ''{\"type\":\"summary\",\"real_leaks\":0,\"real_bytes\":0,\"libc_leaks\":1,\"libc_bytes\":64}''
     @ [CHR 0x0A]"
  using libc_only_registry libc_only_stderr
  by (simp add: libc_only_def [symmetric] report_text write_stderr_fields confirmed_leaks_def
      suspicious_leaks_def summary_record_def dec_text_values)

subsection \<open>The report and the cleanup\<close>

lemma free_info_fields:
  "g_allocations (free_info r s) = g_allocations s"
  "real_free_log (free_info r s)
   = real_free_log s
     @ (case stack_trace r of None \<Rightarrow> [] | Some fr \<Rightarrow> [Stack_trace_block fr])
     @ [Info_block r]"
  by (simp_all add: free_info_def real_free_ptr_def split: option.splits)

lemma fold_cleanup_entry_log:
  "real_free_log (fold cleanup_entry rs s)
   = real_free_log s
     @ concat (map (\<lambda>r. (case stack_trace r of None \<Rightarrow> [] | Some fr \<Rightarrow> [Stack_trace_block fr])
                          @ [Info_block r]) rs)"
proof (induction rs arbitrary: s)
  case Nil
  show ?case by simp
next
  case (Cons r rs)
  have step: "fold cleanup_entry (r # rs) s = fold cleanup_entry rs (cleanup_entry r s)"
    by simp
  have "real_free_log (cleanup_entry r s)
        = real_free_log s
          @ (case stack_trace r of None \<Rightarrow> [] | Some fr \<Rightarrow> [Stack_trace_block fr])
          @ [Info_block r]"
    by (simp add: cleanup_entry_def free_info_fields)
  then show ?case
    unfolding step by (simp add: Cons.IH)
qed

text \<open>
  Claim C10. \<open>hash_table_report_leaks\<close> changes nothing but the error stream: the
  registry after the report is the registry before it, record by record and field by
  field, and so is every other part of the state. The records leave the registry in
  \<open>hash_table_cleanup\<close>, which empties it and hands the metadata of every record (the
  array of its stack trace, then the record) to \<^verbatim>\<open>real_free_ptr\<close>.
\<close>

theorem report_leaves_registry_unchanged:
  "g_allocations (hash_table_report_leaks s) = g_allocations s
   \<and> hash_table_report_leaks s = s\<lparr>stderr_out := stderr_out (hash_table_report_leaks s)\<rparr>
   \<and> g_allocations (hash_table_cleanup s) = []
   \<and> real_free_log (hash_table_cleanup s)
     = real_free_log s
       @ concat (map (\<lambda>r. (case stack_trace r of None \<Rightarrow> [] | Some fr \<Rightarrow> [Stack_trace_block fr])
                            @ [Info_block r]) (g_allocations s))"
proof -
  have "hash_table_report_leaks s = s\<lparr>stderr_out := stderr_out (hash_table_report_leaks s)\<rparr>"
    by (subst report_text) (simp add: report_text write_stderr_def)
  moreover have "g_allocations (hash_table_report_leaks s) = g_allocations s"
    by (simp add: report_text write_stderr_fields)
  moreover have "g_allocations (hash_table_cleanup s) = []"
    by (simp add: hash_table_cleanup_def)
  moreover have "real_free_log (hash_table_cleanup s)
     = real_free_log s
       @ concat (map (\<lambda>r. (case stack_trace r of None \<Rightarrow> [] | Some fr \<Rightarrow> [Stack_trace_block fr])
                            @ [Info_block r]) (g_allocations s))"
    by (simp add: hash_table_cleanup_def HASH_ITER_def fold_cleanup_entry_log)
  ultimately show ?thesis by simp
qed

theorem report_leaves_registry_witness:
  "g_allocations (hash_table_report_leaks simple_leak)
   = [\<lparr>ptr = 0x1000, size_bytes = 1024, timestamp = 0, stack_trace = Some [], stack_depth = 0,
        is_suspicious = 0\<rparr>,
      \<lparr>ptr = 0x2000, size_bytes = 512, timestamp = 0, stack_trace = Some [], stack_depth = 0,
        is_suspicious = 0\<rparr>]
   \<and> g_allocations (hash_table_cleanup (hash_table_report_leaks simple_leak)) = []"
  using report_leaves_registry_unchanged [of simple_leak]
    report_leaves_registry_unchanged [of "hash_table_report_leaks simple_leak"]
  by (simp add: simple_leak_registry)

subsection \<open>Insertion when the stack trace cannot be stored\<close>

text \<open>
  Claim C9. When the real allocator is resolved and gives memory for the record but none
  for the array of the stack trace, \<open>hash_table_add\<close> still registers the record: the
  table gains exactly one record, with the address, the size and the flag of the call, a
  null stack trace and the depth 0, and a lookup of the address finds it.
\<close>

theorem add_keeps_record_without_stack_trace:
  assumes "p \<noteq> 0"
    and "real_malloc_ptr s = Some alloc"
    and "alloc (malloc_calls s)"
    and "\<not> alloc (malloc_calls s + 1)"
  shows "g_allocations (hash_table_add p sz trace depth suspicious s)
         = g_allocations s
           @ [\<lparr>ptr = p, size_bytes = sz, timestamp = clock s, stack_trace = None,
                stack_depth = 0, is_suspicious = suspicious\<rparr>]
    \<and> hash_table_find p (hash_table_add p sz trace depth suspicious s) = 1"
proof -
  have reg: "g_allocations (hash_table_add p sz trace depth suspicious s)
         = g_allocations s
           @ [\<lparr>ptr = p, size_bytes = sz, timestamp = clock s, stack_trace = None,
                stack_depth = 0, is_suspicious = suspicious\<rparr>]"
    using assms by (simp add: hash_table_add_def HASH_ADD_PTR_def)
  have "p \<in> ptr ` set (g_allocations (hash_table_add p sz trace depth suspicious s))"
    unfolding reg by simp
  with assms(1) have "hash_table_find p (hash_table_add p sz trace depth suspicious s) = 1"
    by (simp add: hash_table_find_live)
  with reg show ?thesis by simp
qed

theorem add_keeps_record_witness:
  "(0x1000 :: addr) \<noteq> 0
   \<and> real_malloc_ptr (started\<lparr>real_malloc_ptr := Some only_first_call\<rparr>) = Some only_first_call
   \<and> only_first_call (malloc_calls (started\<lparr>real_malloc_ptr := Some only_first_call\<rparr>))
   \<and> \<not> only_first_call (malloc_calls (started\<lparr>real_malloc_ptr := Some only_first_call\<rparr>) + 1)
   \<and> g_allocations (hash_table_add 0x1000 100 [0x400100, 0x400200] 2 0
         (started\<lparr>real_malloc_ptr := Some only_first_call\<rparr>))
     = [\<lparr>ptr = 0x1000, size_bytes = 100, timestamp = 0, stack_trace = None, stack_depth = 0,
          is_suspicious = 0\<rparr>]
   \<and> hash_table_find 0x1000 (hash_table_add 0x1000 100 [0x400100, 0x400200] 2 0
         (started\<lparr>real_malloc_ptr := Some only_first_call\<rparr>)) = 1"
  using add_keeps_record_without_stack_trace
    [of "0x1000" "started\<lparr>real_malloc_ptr := Some only_first_call\<rparr>" only_first_call
        100 "[0x400100, 0x400200]" 2 0]
  by (simp add: started_def only_first_call_def)

subsection \<open>Removal\<close>

lemma find_Some_split:
  "find P ys = Some x
   \<Longrightarrow> \<exists>as bs. ys = as @ x # bs \<and> (\<forall>a \<in> set as. \<not> P a) \<and> P x \<and> remove1 x ys = as @ bs"
proof (induction ys)
  case Nil
  then show ?case by simp
next
  case (Cons y ys)
  show ?case
  proof (cases "P y")
    case True
    with Cons.prems have "y = x" by simp
    with True have "y # ys = [] @ x # ys \<and> (\<forall>a \<in> set []. \<not> P a) \<and> P x \<and> remove1 x (y # ys) = [] @ ys"
      by simp
    then show ?thesis by blast
  next
    case False
    with Cons.prems have "find P ys = Some x" by simp
    then obtain as bs where s: "ys = as @ x # bs" "\<forall>a \<in> set as. \<not> P a" "P x" "remove1 x ys = as @ bs"
      using Cons.IH by blast
    from False s(3) have "x \<noteq> y" by blast
    with False s have "y # ys = (y # as) @ x # bs \<and> (\<forall>a \<in> set (y # as). \<not> P a) \<and> P x
        \<and> remove1 x (y # ys) = (y # as) @ bs"
      by simp
    then show ?thesis by blast
  qed
qed

lemma HASH_FIND_PTR_split:
  assumes "HASH_FIND_PTR head key = Some found"
  shows "\<exists>before after. head = before @ found # after \<and> ptr found = key
           \<and> key \<notin> ptr ` set after \<and> HASH_DEL head found = before @ after"
proof -
  from assms obtain as bs where s: "rev head = as @ found # bs" "\<forall>a \<in> set as. ptr a \<noteq> key"
      "ptr found = key" "remove1 found (rev head) = as @ bs"
    unfolding HASH_FIND_PTR_def using find_Some_split [of "\<lambda>r. ptr r = key" "rev head" found] by blast
  from s(1) have "rev (rev head) = rev (as @ found # bs)" by simp
  then have h: "head = rev bs @ found # rev as" by simp
  from s(4) have d: "HASH_DEL head found = rev bs @ rev as"
    by (simp add: HASH_DEL_def)
  from s(2) have "key \<notin> ptr ` set (rev as)" by auto
  with h d s(3) show ?thesis by blast
qed

lemma distinct_keys_count:
  "distinct (map f xs) \<Longrightarrow> length (filter (\<lambda>x. f x = k) xs) \<le> 1"
proof (induction xs)
  case Nil
  then show ?case by simp
next
  case (Cons a xs)
  show ?case
  proof (cases "f a = k")
    case True
    with Cons.prems have "k \<notin> f ` set xs" by auto
    then have "filter (\<lambda>x. f x = k) xs = []"
      by (auto simp: filter_empty_conv)
    with True show ?thesis by simp
  next
    case False
    with Cons show ?thesis by simp
  qed
qed

text \<open>
  Claim C4, as the code has it. \<open>hash_table_remove\<close> returns nothing. An address for
  which \<open>hash_table_find\<close> answers 0 (an untracked address, or the null pointer) leaves
  the state as it is. An address for which it answers 1 has a record in the table: the
  call unlinks one such record, the one added last, and releases it itself, handing the
  array of its stack trace (when it has one) and then the record to
  \<^verbatim>\<open>real_free_ptr\<close>; the other records stay, in their order. When the table holds at
  most one record per address, the address is not live after the call.
\<close>

theorem remove_unlinks_and_releases:
  "(hash_table_find p s = 0 \<longrightarrow> hash_table_remove p s = s)
   \<and> (hash_table_find p s = 1 \<longrightarrow>
        (\<exists>before found after.
           g_allocations s = before @ found # after \<and> ptr found = p \<and> p \<notin> ptr ` set after
           \<and> hash_table_remove p s = free_info found (s\<lparr>g_allocations := before @ after\<rparr>)
           \<and> g_allocations (hash_table_remove p s) = before @ after
           \<and> real_free_log (hash_table_remove p s)
             = real_free_log s
               @ (case stack_trace found of None \<Rightarrow> [] | Some fr \<Rightarrow> [Stack_trace_block fr])
               @ [Info_block found]))
   \<and> (distinct (map ptr (g_allocations s)) \<longrightarrow> hash_table_find p (hash_table_remove p s) = 0)"
proof (intro conjI impI)
  assume "hash_table_find p s = 0"
  then show "hash_table_remove p s = s" by (rule hash_table_remove_absent)
next
  assume live: "hash_table_find p s = 1"
  then have nz: "p \<noteq> 0"
    by (simp add: hash_table_find_live)
  from live obtain found where f: "HASH_FIND_PTR (g_allocations s) p = Some found"
    by (cases "HASH_FIND_PTR (g_allocations s) p") (simp_all add: hash_table_find_def split: if_splits)
  then obtain before after where s: "g_allocations s = before @ found # after" "ptr found = p"
      "p \<notin> ptr ` set after" "HASH_DEL (g_allocations s) found = before @ after"
    using HASH_FIND_PTR_split by blast
  from nz f s(4) have r: "hash_table_remove p s = free_info found (s\<lparr>g_allocations := before @ after\<rparr>)"
    by (simp add: hash_table_remove_def)
  then have "g_allocations (hash_table_remove p s) = before @ after"
    and "real_free_log (hash_table_remove p s)
             = real_free_log s
               @ (case stack_trace found of None \<Rightarrow> [] | Some fr \<Rightarrow> [Stack_trace_block fr])
               @ [Info_block found]"
    by (simp_all add: free_info_fields)
  with s r show "\<exists>before found after.
           g_allocations s = before @ found # after \<and> ptr found = p \<and> p \<notin> ptr ` set after
           \<and> hash_table_remove p s = free_info found (s\<lparr>g_allocations := before @ after\<rparr>)
           \<and> g_allocations (hash_table_remove p s) = before @ after
           \<and> real_free_log (hash_table_remove p s)
             = real_free_log s
               @ (case stack_trace found of None \<Rightarrow> [] | Some fr \<Rightarrow> [Stack_trace_block fr])
               @ [Info_block found]"
    by blast
next
  assume d: "distinct (map ptr (g_allocations s))"
  show "hash_table_find p (hash_table_remove p s) = 0"
  proof (cases "hash_table_find p s = 1")
    case False
    then have "hash_table_find p s = 0"
      using hash_table_find_cases [of p s] by simp
    then show ?thesis by (simp add: hash_table_remove_absent)
  next
    case True
    then have nz: "p \<noteq> 0"
      by (simp add: hash_table_find_live)
    from True obtain found where f: "HASH_FIND_PTR (g_allocations s) p = Some found"
      by (cases "HASH_FIND_PTR (g_allocations s) p") (simp_all add: hash_table_find_def split: if_splits)
    then obtain before after where s: "g_allocations s = before @ found # after" "ptr found = p"
        "HASH_DEL (g_allocations s) found = before @ after"
      using HASH_FIND_PTR_split by blast
    from d s(1,2) have "p \<notin> ptr ` set (before @ after)" by auto
    moreover from nz f s(3) have "g_allocations (hash_table_remove p s) = before @ after"
      by (simp add: hash_table_remove_def free_info_fields)
    ultimately have "hash_table_find p (hash_table_remove p s) \<noteq> 1"
      by (simp add: hash_table_find_live)
    then show ?thesis
      using hash_table_find_cases [of p "hash_table_remove p s"] by simp
  qed
qed

theorem remove_unlinks_and_releases_witness:
  "hash_table_find 0x2000 simple_leak = 1
   \<and> distinct (map ptr (g_allocations simple_leak))
   \<and> hash_table_find 0x2000 (hash_table_remove 0x2000 simple_leak) = 0
   \<and> hash_table_find 0x3000 simple_leak = 0
   \<and> hash_table_remove 0x3000 simple_leak = simple_leak"
proof -
  have live: "hash_table_find 0x2000 simple_leak = 1"
    by (simp add: hash_table_find_live simple_leak_registry)
  have dead: "hash_table_find 0x3000 simple_leak = 0"
    using hash_table_find_cases [of "0x3000" simple_leak]
    by (simp add: hash_table_find_live simple_leak_registry)
  have d: "distinct (map ptr (g_allocations simple_leak))"
    by (simp add: simple_leak_registry)
  show ?thesis
    using remove_unlinks_and_releases [of "0x2000" simple_leak]
      remove_unlinks_and_releases [of "0x3000" simple_leak] live dead d
    by simp
qed

text \<open>
  The claim as the spec states it fails: the caller of \<open>hash_table_remove\<close> receives
  neither the record nor a "not present" result. For an address that is live and for
  one that is not the function returns nothing and leaves the same registry; the record
  of the live one has been handed to \<^verbatim>\<open>real_free_ptr\<close> when the call returns.
\<close>

theorem remove_gives_caller_nothing:
  "hash_table_find 0x1000 (hash_table_add 0x1000 100 [] 0 0 started) = 1
   \<and> hash_table_find 0x1000 started = 0
   \<and> g_allocations (hash_table_remove 0x1000 (hash_table_add 0x1000 100 [] 0 0 started))
     = g_allocations (hash_table_remove 0x1000 started)
   \<and> real_free_log (hash_table_remove 0x1000 (hash_table_add 0x1000 100 [] 0 0 started))
     = [Stack_trace_block [],
        Info_block \<lparr>ptr = 0x1000, size_bytes = 100, timestamp = 0, stack_trace = Some [],
          stack_depth = 0, is_suspicious = 0\<rparr>]
   \<and> real_free_log (hash_table_remove 0x1000 started) = []"
  by (simp add: started_def always_memory_def hash_table_add_def hash_table_remove_def
      hash_table_find_def HASH_ADD_PTR_def HASH_FIND_PTR_def HASH_DEL_def free_info_def
      real_free_ptr_def)

subsection \<open>One record per address\<close>



lemma hash_table_add_distinct:
  assumes "distinct (map ptr (g_allocations s))" and "hash_table_find p s = 0"
  shows "distinct (map ptr (g_allocations (hash_table_add p sz trace depth suspicious s)))"
proof (cases "p = 0")
  case True
  with assms(1) show ?thesis by (simp add: hash_table_add_def)
next
  case False
  with assms(2) have "p \<notin> ptr ` set (g_allocations s)"
    using hash_table_find_live [of p s] by simp
  with assms(1) show ?thesis
    by (simp add: hash_table_add_def HASH_ADD_PTR_def Let_def split: option.splits)
qed

lemma hash_table_remove_distinct:
  assumes "distinct (map ptr (g_allocations s))"
  shows "distinct (map ptr (g_allocations (hash_table_remove p s)))"
  using assms distinct_keys_HASH_DEL
  by (simp add: hash_table_remove_def free_info_fields split: option.splits)

lemma fresh_inserts_distinct:
  "distinct (map ptr (g_allocations s)) \<Longrightarrow> inserts_fresh ops s
   \<Longrightarrow> distinct (map ptr (g_allocations (fold apply_op ops s)))"
proof (induction ops s rule: inserts_fresh.induct)
  case (1 s)
  then show ?case by simp
next
  case (2 p sz trace depth suspicious ops s)
  then show ?case by (simp add: hash_table_add_distinct)
next
  case (3 p ops s)
  then show ?case by (simp add: hash_table_remove_distinct)
next
  case (4 ops s)
  then show ?case by (simp add: hash_table_init_def)
qed

text \<open>
  Claim C6, as the code has it. \<open>hash_table_add\<close> does not look for a record of the
  address it is given: it relies on its caller. From a registry with at most one record
  per address, any sequence of inserts, removes and resets in which every insert is for
  an address that is not live at that moment leaves at most one record for any address.
\<close>

theorem fresh_inserts_keep_one_record_per_address:
  assumes "distinct (map ptr (g_allocations s))" and "inserts_fresh ops s"
  shows "length (filter (\<lambda>r. ptr r = p) (g_allocations (fold apply_op ops s))) \<le> 1"
proof -
  from assms have "distinct (map ptr (g_allocations (fold apply_op ops s)))"
    by (rule fresh_inserts_distinct)
  then show ?thesis
    by (rule distinct_keys_count)
qed

theorem fresh_inserts_witness:
  "distinct (map ptr (g_allocations started))
   \<and> inserts_fresh [Insert 0x1000 8 [] 0 0, Remove 0x1000, Insert 0x1000 16 [] 0 0, Reset,
        Insert 0x1000 32 [] 0 0, Insert 0x2000 64 [] 0 0] started
   \<and> length (filter (\<lambda>r. ptr r = 0x1000)
        (g_allocations (fold apply_op [Insert 0x1000 8 [] 0 0, Remove 0x1000,
           Insert 0x1000 16 [] 0 0, Reset, Insert 0x1000 32 [] 0 0, Insert 0x2000 64 [] 0 0]
           started))) \<le> 1"
proof -
  have d: "distinct (map ptr (g_allocations started))"
    by (simp add: started_def)
  have f: "inserts_fresh [Insert 0x1000 8 [] 0 0, Remove 0x1000, Insert 0x1000 16 [] 0 0, Reset,
        Insert 0x1000 32 [] 0 0, Insert 0x2000 64 [] 0 0] started"
    by (simp add: started_def always_memory_def hash_table_add_def hash_table_remove_def
        hash_table_find_def hash_table_init_def HASH_ADD_PTR_def HASH_FIND_PTR_def HASH_DEL_def
        free_info_def real_free_ptr_def)
  show ?thesis
    using fresh_inserts_keep_one_record_per_address [OF d f, of "0x1000"] d f by simp
qed

text \<open>
  The claim as the spec states it fails: two inserts of one address leave two records
  with that key, and after one remove the address is still live.
\<close>

theorem insert_twice_two_records:
  "map ptr (g_allocations (fold apply_op [Insert 0x1000 8 [] 0 0, Insert 0x1000 16 [] 0 0] started))
   = [0x1000, 0x1000]
   \<and> hash_table_find 0x1000
       (fold apply_op [Insert 0x1000 8 [] 0 0, Insert 0x1000 16 [] 0 0, Remove 0x1000] started) = 1"
  by (simp add: started_def always_memory_def hash_table_add_def hash_table_remove_def
      hash_table_find_def HASH_ADD_PTR_def HASH_FIND_PTR_def HASH_DEL_def free_info_def
      real_free_ptr_def)

subsection \<open>Deallocations seen by the interceptor\<close>




lemma deallocate_not_live:
  assumes "p \<noteq> 0" and "p \<notin> ptr ` set (g_allocations s)"
  shows "deallocate p s = ([(InvalidFree, p)], s)"
proof -
  from assms(2) have "hash_table_find p s \<noteq> 1"
    by (simp add: hash_table_find_live)
  with assms(1) show ?thesis
    by (simp add: deallocate_def classifyFree_def)
qed



subsection \<open>Freeing twice\<close>

lemma hash_table_add_other:
  "q \<noteq> p \<Longrightarrow> filter (\<lambda>r. ptr r = p) (g_allocations (hash_table_add q sz trace depth suspicious s))
              = filter (\<lambda>r. ptr r = p) (g_allocations s)"
  by (simp add: hash_table_add_def HASH_ADD_PTR_def Let_def split: option.splits)

lemma hash_table_remove_other:
  assumes "q \<noteq> p"
  shows "filter (\<lambda>r. ptr r = p) (g_allocations (hash_table_remove q s))
         = filter (\<lambda>r. ptr r = p) (g_allocations s)"
proof (cases "HASH_FIND_PTR (g_allocations s) q")
  case None
  then show ?thesis by (simp add: hash_table_remove_def)
next
  case (Some found)
  then have "ptr found = q" by (simp add: HASH_FIND_PTR_Some)
  with assms have "\<not> ptr found = p" by simp
  then have "filter (\<lambda>r. ptr r = p) (HASH_DEL (g_allocations s) found)
             = filter (\<lambda>r. ptr r = p) (g_allocations s)"
    by (rule filter_HASH_DEL_other)
  with Some show ?thesis
    by (simp add: hash_table_remove_def free_info_fields)
qed

lemma run_call_other:
  assumes "\<not> mentions p c"
  shows "filter (\<lambda>r. ptr r = p) (g_allocations (snd (run_call c st)))
         = filter (\<lambda>r. ptr r = p) (g_allocations (snd st))"
proof (cases st)
  case (Pair events s)
  show ?thesis
  proof (cases c)
    case (Allocate result sz frames depth suspicious)
    with assms Pair show ?thesis
      by (simp add: allocate_def hash_table_add_other)
  next
    case (Deallocate pointer)
    with assms have "pointer \<noteq> p" by simp
    then have "filter (\<lambda>r. ptr r = p) (g_allocations (snd (deallocate pointer s)))
               = filter (\<lambda>r. ptr r = p) (g_allocations s)"
      by (simp add: deallocate_def classifyFree_def hash_table_remove_other)
    with Deallocate Pair show ?thesis by simp
  qed
qed

lemma run_other:
  "\<forall>c \<in> set calls. \<not> mentions p c
   \<Longrightarrow> filter (\<lambda>r. ptr r = p) (g_allocations (snd (fold run_call calls st)))
       = filter (\<lambda>r. ptr r = p) (g_allocations (snd st))"
proof (induction calls arbitrary: st)
  case Nil
  show ?case by simp
next
  case (Cons c calls)
  then have "filter (\<lambda>r. ptr r = p) (g_allocations (snd (fold run_call calls (run_call c st))))
             = filter (\<lambda>r. ptr r = p) (g_allocations (snd (run_call c st)))"
    by simp
  moreover from Cons.prems have "\<not> mentions p c" by simp
  ultimately show ?case
    by (simp add: run_call_other)
qed

lemma live_iff_filter:
  "p \<in> ptr ` set (g_allocations s) \<longleftrightarrow> filter (\<lambda>r. ptr r = p) (g_allocations s) \<noteq> []"
  by (auto simp: filter_empty_conv)

lemma deallocate_single:
  assumes "p \<noteq> 0" and "filter (\<lambda>r. ptr r = p) (g_allocations s) = [info]"
  shows "fst (deallocate p s) = []"
    and "filter (\<lambda>r. ptr r = p) (g_allocations (snd (deallocate p s))) = []"
proof -
  from assms(2) have "p \<in> ptr ` set (g_allocations s)"
    by (simp add: live_iff_filter)
  with assms(1) have live: "hash_table_find p s = 1"
    by (simp add: hash_table_find_live)
  then show "fst (deallocate p s) = []"
    using assms(1) by (simp add: deallocate_def classifyFree_def)
  from live obtain found where f: "HASH_FIND_PTR (g_allocations s) p = Some found"
    by (cases "HASH_FIND_PTR (g_allocations s) p") (simp_all add: hash_table_find_def split: if_splits)
  then have "found \<in> set (filter (\<lambda>r. ptr r = p) (g_allocations s))"
    using HASH_FIND_PTR_Some [of "g_allocations s" p found] by simp
  with assms(2) have "found = info" by simp
  with assms(2) have "filter (\<lambda>r. ptr r = p) (HASH_DEL (g_allocations s) found) = []"
    by (simp add: filter_HASH_DEL)
  with f assms(1) live show "filter (\<lambda>r. ptr r = p) (g_allocations (snd (deallocate p s))) = []"
    by (simp add: deallocate_def classifyFree_def hash_table_remove_def free_info_fields)
qed

text \<open>
  Claim C2, as the code has it. Let the real allocator return an address that is not
  null and not live, and let the registry track the allocation: the real allocator is
  resolved and gives memory for the record. Then, whatever calls on other addresses
  come in between, the first deallocation of the address emits no corruption event and
  the second emits exactly one, an invalid free of that address (the interceptor keeps
  no history of freed addresses).
\<close>

theorem second_free_reported_once:
  assumes "p \<noteq> 0" and "hash_table_find p s = 0"
    and "real_malloc_ptr s = Some alloc" and "alloc (malloc_calls s)"
    and "\<forall>c \<in> set before_first. \<not> mentions p c"
    and "\<forall>c \<in> set before_second. \<not> mentions p c"
  shows "fst (deallocate p (snd (run before_first (allocate p sz frames depth suspicious s)))) = []
    \<and> fst (deallocate p (snd (run before_second
              (snd (deallocate p (snd (run before_first (allocate p sz frames depth suspicious s))))))))
      = [(InvalidFree, p)]"
proof -
  let ?s1 = "snd (run before_first (allocate p sz frames depth suspicious s))"
  let ?s2 = "snd (run before_second (snd (deallocate p ?s1)))"
  from assms(1,2) have "p \<notin> ptr ` set (g_allocations s)"
    using hash_table_find_live [of p s] by simp
  then have "filter (\<lambda>r. ptr r = p) (g_allocations s) = []"
    by (simp add: live_iff_filter)
  with assms(1,3,4) obtain info
    where "filter (\<lambda>r. ptr r = p) (g_allocations (allocate p sz frames depth suspicious s)) = [info]"
    by (simp add: allocate_def hash_table_add_def HASH_ADD_PTR_def Let_def)
  with assms(5) have one: "filter (\<lambda>r. ptr r = p) (g_allocations ?s1) = [info]"
    using run_other [of before_first p "([], allocate p sz frames depth suspicious s)"]
    by (simp add: run_def)
  from deallocate_single [OF assms(1) one]
  have first: "fst (deallocate p ?s1) = []"
    and gone: "filter (\<lambda>r. ptr r = p) (g_allocations (snd (deallocate p ?s1))) = []"
    by simp_all
  from gone assms(6) have "filter (\<lambda>r. ptr r = p) (g_allocations ?s2) = []"
    using run_other [of before_second p "([], snd (deallocate p ?s1))"]
    by (simp add: run_def)
  then have "p \<notin> ptr ` set (g_allocations ?s2)"
    by (simp add: live_iff_filter)
  with assms(1) have "deallocate p ?s2 = ([(InvalidFree, p)], ?s2)"
    by (rule deallocate_not_live)
  with first show ?thesis by simp
qed

text \<open>
  The scenario "double free" of the tests, with an allocation and a deallocation of
  another address in between.
\<close>

theorem second_free_witness:
  "(0x1000 :: addr) \<noteq> 0
   \<and> hash_table_find 0x1000 started = 0
   \<and> real_malloc_ptr started = Some always_memory
   \<and> always_memory (malloc_calls started)
   \<and> fst (deallocate 0x1000 (snd (run [Allocate 0x2000 200 [] 0 0] (allocate 0x1000 100 [] 0 0 started))))
     = []
   \<and> fst (deallocate 0x1000 (snd (run [Deallocate 0x2000]
        (snd (deallocate 0x1000
           (snd (run [Allocate 0x2000 200 [] 0 0] (allocate 0x1000 100 [] 0 0 started))))))))
     = [(InvalidFree, 0x1000)]"
proof -
  have a: "hash_table_find 0x1000 started = 0" "real_malloc_ptr started = Some always_memory"
    "always_memory (malloc_calls started)"
    by (simp_all add: started_def always_memory_def hash_table_find_def HASH_FIND_PTR_def)
  have b: "\<forall>c \<in> set [Allocate 0x2000 200 [] 0 0]. \<not> mentions 0x1000 c"
    "\<forall>c \<in> set [Deallocate 0x2000]. \<not> mentions 0x1000 c"
    by simp_all
  have nz: "(0x1000 :: addr) \<noteq> 0" by simp
  show ?thesis
    using second_free_reported_once [OF nz a b, of 100 "[]" 0 0] a by simp
qed

text \<open>
  The claim as the spec states it fails for an allocation that succeeds while the
  registry cannot allocate its record: \<open>hash_table_add\<close> reports the failure and tracks
  nothing, and the first deallocation of the address is reported as an invalid free.
\<close>

theorem first_free_of_untracked_allocation_reported:
  "g_allocations (allocate 0x1000 100 [] 0 0 (started\<lparr>real_malloc_ptr := Some never_memory\<rparr>)) = []
   \<and> fst (deallocate 0x1000 (allocate 0x1000 100 [] 0 0 (started\<lparr>real_malloc_ptr := Some never_memory\<rparr>)))
     = [(InvalidFree, 0x1000)]"
  by (simp add: started_def never_memory_def allocate_def hash_table_add_def deallocate_def
      classifyFree_def hash_table_find_def HASH_FIND_PTR_def)

end
